theory Spec2Isabelle
  imports Main
begin

section \<open>The values of the remote payloads\<close>

text \<open>
  The client of \<^verbatim>\<open>src/client/index.ts\<close> receives every response as an untyped value
  (\<^verbatim>\<open>response: any\<close>, \<^verbatim>\<open>raw: any\<close>) parsed from JSON. Such a value is one of the six
  JSON kinds; \<open>JUndefined\<close> is what reading a missing property yields. An object is the
  list of its own properties, each name once, read with \<open>map_of\<close>; the names are the
  ordinary ones of the payloads (user ids, timestamps), none that JavaScript treats
  specially. Numbers are the integers a payload carries.
\<close>

datatype json =
    JUndefined
  | JNull
  | JBool bool
  | JNum int
  | JStr string
  | JArr "json list"
  | JObj "(string \<times> json) list"

text \<open>
  A thrown exception and a rejected promise are the value \<open>Inl e\<close>; a returned value and
  a fulfilled promise are \<open>Inr v\<close>. Every exception the modelled code raises by itself is
  a \<open>TypeError\<close> (a property read on \<open>undefined\<close> or \<open>null\<close>, a call of something that is
  not a function); \<open>Rejected\<close> is a failure of the transport.
\<close>

datatype error = TypeError | Rejected

definition and_then :: "error + 'a \<Rightarrow> ('a \<Rightarrow> error + 'b) \<Rightarrow> error + 'b" where
  "and_then p f = (case p of Inl e \<Rightarrow> Inl e | Inr v \<Rightarrow> f v)"

text \<open>The conversion to a boolean that \<^verbatim>\<open>x ? a : b\<close>, \<^verbatim>\<open>if (x)\<close> and \<^verbatim>\<open>!!x\<close> apply.\<close>

fun truthy :: "json \<Rightarrow> bool" where
  "truthy JUndefined = False"
| "truthy JNull = False"
| "truthy (JBool b) = b"
| "truthy (JNum n) = (n \<noteq> 0)"
| "truthy (JStr s) = (s \<noteq> [])"
| "truthy (JArr xs) = True"
| "truthy (JObj kvs) = True"

fun nullish :: "json \<Rightarrow> bool" where
  "nullish JUndefined = True"
| "nullish JNull = True"
| "nullish v = False"

text \<open>
  \<open>field v k\<close> is \<^verbatim>\<open>v.k\<close> for a value that is neither \<open>undefined\<close> nor \<open>null\<close>: an own
  property of an object, and \<open>undefined\<close> otherwise (none of the property names the client
  reads is inherited by a string, a number, a boolean, an array or a plain object).
  \<open>get_prop\<close> adds the exception of a read on \<open>undefined\<close> or \<open>null\<close>; a destructuring
  \<^verbatim>\<open>const { a, b } = v\<close> throws in the same case.
\<close>

fun field :: "json \<Rightarrow> string \<Rightarrow> json" where
  "field (JObj kvs) k = (case map_of kvs k of Some v \<Rightarrow> v | None \<Rightarrow> JUndefined)"
| "field v k = JUndefined"

definition get_prop :: "json \<Rightarrow> string \<Rightarrow> error + json" where
  "get_prop v k = (if nullish v then Inl TypeError else Inr (field v k))"

text \<open>\<^verbatim>\<open>v[0]\<close>: the first element of an array, the first character of a string.\<close>

fun index0 :: "json \<Rightarrow> error + json" where
  "index0 JUndefined = Inl TypeError"
| "index0 JNull = Inl TypeError"
| "index0 (JArr xs) = Inr (case xs of [] \<Rightarrow> JUndefined | x # _ \<Rightarrow> x)"
| "index0 (JObj kvs) = Inr (field (JObj kvs) ''0'')"
| "index0 (JStr s) = Inr (case s of [] \<Rightarrow> JUndefined | c # _ \<Rightarrow> JStr [c])"
| "index0 v = Inr JUndefined"

text \<open>\<^verbatim>\<open>xs.join(sep)\<close> on an array of strings.\<close>

fun join :: "string \<Rightarrow> string list \<Rightarrow> string" where
  "join sep [] = []"
| "join sep [x] = x"
| "join sep (x # y # ys) = x @ sep @ join sep (y # ys)"

text \<open>
  The conversion to a string that a template literal \<^verbatim>\<open>`#${v}`\<close> and a computed property
  name \<^verbatim>\<open>obj[v]\<close> apply. An integer prints in decimal (as JavaScript does below
  \<open>10\<^sup>2\<^sup>1\<close>), an array as its elements joined by commas with \<open>undefined\<close>
  and \<open>null\<close> elements empty, an object as \<^verbatim>\<open>[object Object]\<close>.
\<close>

fun show_nat :: "nat \<Rightarrow> string" where
  "show_nat n =
     (if n < 10 then [''0123456789'' ! n]
      else show_nat (n div 10) @ [''0123456789'' ! (n mod 10)])"

declare show_nat.simps [simp del]

definition show_int :: "int \<Rightarrow> string" where
  "show_int i = (if i < 0 then CHR ''-'' # show_nat (nat (- i)) else show_nat (nat i))"

fun js_to_string :: "json \<Rightarrow> string" where
  "js_to_string JUndefined = ''undefined''"
| "js_to_string JNull = ''null''"
| "js_to_string (JBool b) = (if b then ''true'' else ''false'')"
| "js_to_string (JNum n) = show_int n"
| "js_to_string (JStr s) = s"
| "js_to_string (JArr xs) =
     join '','' (map (\<lambda>x. if nullish x then [] else js_to_string x) xs)"
| "js_to_string (JObj kvs) = ''[object Object]''"

text \<open>\<^verbatim>\<open>xs.forEach(f)\<close> and \<^verbatim>\<open>xs.map(f)\<close>, with the callback's exception ending the loop.
  Only an array has either method: on any other value the call throws.\<close>

fun forEach :: "json list \<Rightarrow> (json \<Rightarrow> 's \<Rightarrow> error + 's) \<Rightarrow> 's \<Rightarrow> error + 's" where
  "forEach [] f s = Inr s"
| "forEach (x # xs) f s = (case f x s of Inl e \<Rightarrow> Inl e | Inr s' \<Rightarrow> forEach xs f s')"

fun array_forEach :: "json \<Rightarrow> (json \<Rightarrow> 's \<Rightarrow> error + 's) \<Rightarrow> 's \<Rightarrow> error + 's" where
  "array_forEach (JArr xs) f s = forEach xs f s"
| "array_forEach v f s = Inl TypeError"

fun map_elements :: "(json \<Rightarrow> error + 'a) \<Rightarrow> json list \<Rightarrow> error + 'a list" where
  "map_elements f [] = Inr []"
| "map_elements f (x # xs) =
     (case f x of
        Inl e \<Rightarrow> Inl e
      | Inr y \<Rightarrow> (case map_elements f xs of Inl e \<Rightarrow> Inl e | Inr ys \<Rightarrow> Inr (y # ys)))"

fun array_map :: "json \<Rightarrow> (json \<Rightarrow> error + 'a) \<Rightarrow> error + 'a list" where
  "array_map (JArr xs) f = map_elements f xs"
| "array_map v f = Inl TypeError"

section \<open>The canonical records\<close>

record file_attachment =
  attachment_name :: json
  attachment_permalink :: json

record reaction =
  reaction_name :: json
  reaction_count :: json
  reaction_userIds :: json

record content =
  author :: json
  authorIcon :: json
  pretext :: json
  title :: json
  titleLink :: json
  content_text :: json
  footer :: json
  borderColor :: json

record message =
  userId :: json
  timestamp :: json
  isEdited :: bool
  message_text :: json
  attachment :: "file_attachment option"
  reactions :: "reaction list"
  content :: content

text \<open>A user record has the key \<^verbatim>\<open>isBot\<close> only when a bot lookup made it.\<close>

record user =
  user_id :: json
  user_name :: json
  imageUrl :: json
  isBot :: "bool option"

record channel =
  channel_id :: json
  channel_name :: string
  channel_type :: string

text \<open>
  \<^verbatim>\<open>SlackChannelMessages\<close> and \<^verbatim>\<open>SlackUsers\<close> are objects used as dictionaries: a map from
  the property name to the record.
\<close>

type_synonym messages = "string \<rightharpoonup> message"
type_synonym users = "string \<rightharpoonup> user"

text \<open>The rich-content block of a message without attachments.\<close>

definition empty_content :: content where
  "empty_content =
     \<lparr>author = JStr [], authorIcon = JStr [], pretext = JStr [], title = JStr [],
      titleLink = JStr [], content_text = JStr [], footer = JStr [], borderColor = JStr []\<rparr>"

section \<open>getMessage\<close>

text \<open>\<^verbatim>\<open>attachments ? attachments[0].f : ""\<close>\<close>

definition first_field :: "json \<Rightarrow> string \<Rightarrow> error + json" where
  "first_field xs f = and_then (index0 xs) (\<lambda>x. get_prop x f)"

definition content_field :: "json \<Rightarrow> string \<Rightarrow> error + json" where
  "content_field attachments f =
     (if truthy attachments then first_field attachments f else Inr (JStr []))"

definition getMessage :: "json \<Rightarrow> error + messages" where
  "getMessage raw =
     (if nullish raw then Inl TypeError
      else
        let files = field raw ''files''; ts = field raw ''ts''; user = field raw ''user'';
            text = field raw ''text''; edited = field raw ''edited'';
            bot_id = field raw ''bot_id''; attachments = field raw ''attachments'';
            reactions = field raw ''reactions''
        in
        and_then
          (if truthy files
           then and_then (first_field files ''name'') (\<lambda>n.
                and_then (first_field files ''permalink'') (\<lambda>p.
                Inr (Some \<lparr>attachment_name = n, attachment_permalink = p\<rparr>)))
           else Inr None) (\<lambda>fileAttachment.
        and_then
          (if truthy reactions
           then array_map reactions (\<lambda>r.
                  and_then (get_prop r ''name'') (\<lambda>n.
                  and_then (get_prop r ''count'') (\<lambda>c.
                  and_then (get_prop r ''users'') (\<lambda>u.
                  Inr \<lparr>reaction_name = n, reaction_count = c, reaction_userIds = u\<rparr>))))
           else Inr []) (\<lambda>rs.
        and_then (content_field attachments ''author_name'') (\<lambda>c1.
        and_then (content_field attachments ''author_icon'') (\<lambda>c2.
        and_then (content_field attachments ''pretext'') (\<lambda>c3.
        and_then (content_field attachments ''title'') (\<lambda>c4.
        and_then (content_field attachments ''title_link'') (\<lambda>c5.
        and_then (content_field attachments ''text'') (\<lambda>c6.
        and_then (content_field attachments ''footer'') (\<lambda>c7.
        and_then (content_field attachments ''color'') (\<lambda>c8.
        Inr [js_to_string ts \<mapsto>
          \<lparr>userId = (if truthy user then user else bot_id),
           timestamp = ts,
           isEdited = truthy edited,
           message_text = text,
           attachment = fileAttachment,
           reactions = rs,
           content = \<lparr>author = c1, authorIcon = c2, pretext = c3, title = c4,
                      titleLink = c5, content_text = c6, footer = c7,
                      borderColor = c8\<rparr>\<rparr>])))))))))))"

text \<open>
  The three parts of \<^verbatim>\<open>getMessage\<close> that can throw, each by itself: the file attachment,
  the reactions and the rich-content block.
\<close>

definition file_part :: "json \<Rightarrow> error + file_attachment option" where
  "file_part v =
     (if truthy v
      then and_then (first_field v ''name'') (\<lambda>n.
           and_then (first_field v ''permalink'') (\<lambda>p.
           Inr (Some \<lparr>attachment_name = n, attachment_permalink = p\<rparr>)))
      else Inr None)"

definition reaction_of :: "json \<Rightarrow> error + reaction" where
  "reaction_of r =
     and_then (get_prop r ''name'') (\<lambda>n.
     and_then (get_prop r ''count'') (\<lambda>c.
     and_then (get_prop r ''users'') (\<lambda>u.
     Inr \<lparr>reaction_name = n, reaction_count = c, reaction_userIds = u\<rparr>)))"

definition reactions_part :: "json \<Rightarrow> error + reaction list" where
  "reactions_part v =
     (if truthy v then array_map v reaction_of else Inr [])"

definition content_part :: "json \<Rightarrow> error + content" where
  "content_part v =
     and_then (content_field v ''author_name'') (\<lambda>c1.
     and_then (content_field v ''author_icon'') (\<lambda>c2.
     and_then (content_field v ''pretext'') (\<lambda>c3.
     and_then (content_field v ''title'') (\<lambda>c4.
     and_then (content_field v ''title_link'') (\<lambda>c5.
     and_then (content_field v ''text'') (\<lambda>c6.
     and_then (content_field v ''footer'') (\<lambda>c7.
     and_then (content_field v ''color'') (\<lambda>c8.
     Inr \<lparr>author = c1, authorIcon = c2, pretext = c3, title = c4,
          titleLink = c5, content_text = c6, footer = c7, borderColor = c8\<rparr>))))))))"

text \<open>
  When a part throws. \<open>no_first v\<close>: the value \<open>v\<close> has no first element to read a
  property of, that is \<^verbatim>\<open>v[0]\<close> is \<open>undefined\<close> or \<open>null\<close> (an empty array, an array
  that starts with \<open>null\<close>, an object without a property \<^verbatim>\<open>0\<close>, a number, a boolean).
  \<open>not_mappable v\<close>: the value is not an array, or is an array that holds \<open>undefined\<close> or
  \<open>null\<close>.
\<close>

fun no_first :: "json \<Rightarrow> bool" where
  "no_first (JArr []) = True"
| "no_first (JArr (x # xs)) = nullish x"
| "no_first (JObj kvs) = nullish (field (JObj kvs) ''0'')"
| "no_first (JStr s) = (s = [])"
| "no_first v = True"

fun not_mappable :: "json \<Rightarrow> bool" where
  "not_mappable (JArr rs) = (\<exists>r \<in> set rs. nullish r)"
| "not_mappable v = True"

section \<open>The client\<close>

text \<open>
  \<^verbatim>\<open>this.client.apiCall(method, options)\<close> is a function from the method's name and its
  options to the outcome of the promise it returns.
\<close>

type_synonym client = "string \<Rightarrow> (string \<times> json) list \<Rightarrow> error + json"

definition HISTORY_LIMIT :: int where
  "HISTORY_LIMIT = 50"

definition getConversationHistory :: "client \<Rightarrow> string \<Rightarrow> error + messages" where
  "getConversationHistory client channel =
     and_then
       (client ''conversations.history''
          [(''channel'', JStr channel), (''limit'', JNum HISTORY_LIMIT)])
       (\<lambda>response.
          if nullish response then Inl TypeError
          else
            let messages = field response ''messages''; ok = field response ''ok'' in
            if truthy ok
            then array_forEach messages
                   (\<lambda>message result.
                      and_then (getMessage message) (\<lambda>m. Inr (result ++ m)))
                   Map.empty
            else Inr Map.empty)"

text \<open>
  \<^verbatim>\<open>getAllUsers\<close> returns \<^verbatim>\<open>users\<close> inside \<^verbatim>\<open>if (ok)\<close> only: otherwise the callback ends
  without a \<^verbatim>\<open>return\<close> and the promise is fulfilled with \<open>undefined\<close>, which is \<open>None\<close>.
\<close>

definition getAllUsers :: "client \<Rightarrow> error + users option" where
  "getAllUsers client =
     and_then (client ''users.list'' [])
       (\<lambda>response.
          if nullish response then Inl TypeError
          else
            let members = field response ''members''; ok = field response ''ok'' in
            if truthy ok
            then and_then
                   (array_forEach members
                      (\<lambda>member users.
                         and_then (get_prop member ''id'') (\<lambda>key.
                         and_then (get_prop member ''id'') (\<lambda>i.
                         and_then (get_prop member ''name'') (\<lambda>n.
                         and_then (get_prop member ''profile'') (\<lambda>profile.
                         and_then (get_prop profile ''image_72'') (\<lambda>img.
                         Inr (users(js_to_string key \<mapsto>
                           \<lparr>user_id = i, user_name = n, imageUrl = img,
                            isBot = None\<rparr>))))))))
                      Map.empty)
                   (\<lambda>users. Inr (Some users))
            else Inr None)"

definition getBotInfo :: "client \<Rightarrow> string \<Rightarrow> error + users" where
  "getBotInfo client botId =
     and_then (client ''bots.info'' [(''bot'', JStr botId)])
       (\<lambda>response.
          if nullish response then Inl TypeError
          else
            let bot = field response ''bot''; ok = field response ''ok'' in
            if truthy ok
            then (if nullish bot then Inl TypeError
                  else
                    let i = field bot ''id''; n = field bot ''name'';
                        icons = field bot ''icons''
                    in
                    and_then (get_prop icons ''image_72'') (\<lambda>img.
                    Inr [js_to_string (field bot ''id'') \<mapsto>
                      \<lparr>user_id = i, user_name = n, imageUrl = img, isBot = Some True\<rparr>]))
            else Inr Map.empty)"

section \<open>The pattern of a multi-party name\<close>

text \<open>
  \<^verbatim>\<open>name.match(/mpdm-([^-]+)((--[^-]+)*)-\\d+/)\<close> searches the name from the left for the
  first position where the pattern matches, and there takes the first way of matching in
  the order of a backtracking matcher: each \<^verbatim>\<open>+\<close> and \<^verbatim>\<open>*\<close> tries its longest
  repetition first. The model lists, for each part of the pattern, the ways it can match
  a prefix of the text in that order, each way with the text it matched and the text it
  left: \<open>class_plus\<close> is a character class under \<^verbatim>\<open>+\<close>, \<open>group_star\<close> is
  \<^verbatim>\<open>(--[^-]+)*\<close>, \<open>tail_matches\<close> is \<^verbatim>\<open>-\\d+\<close>, whose extent nothing reads.
  \<open>match_here\<close> is the match at one position; it yields the two captures the caller
  reads, \<^verbatim>\<open>matched[1]\<close> and \<^verbatim>\<open>matched[2]\<close>. \<open>match_mpdm\<close> is the search from the left.
  A string is the list of its bytes; a byte of a character beyond ASCII is not a dash
  and not a digit.
\<close>

definition not_dash :: "char \<Rightarrow> bool" where
  "not_dash c = (c \<noteq> CHR ''-'')"

definition is_digit :: "char \<Rightarrow> bool" where
  "is_digit c = (c \<in> set ''0123456789'')"

fun class_plus :: "(char \<Rightarrow> bool) \<Rightarrow> string \<Rightarrow> (string \<times> string) list" where
  "class_plus P [] = []"
| "class_plus P (c # cs) =
     (if P c then map (\<lambda>(m, r). (c # m, r)) (class_plus P cs) @ [([c], cs)] else [])"

lemma class_plus_splits:
  "(m, r) \<in> set (class_plus P s) \<Longrightarrow> s = m @ r \<and> m \<noteq> [] \<and> (\<forall>c \<in> set m. P c)"
  by (induction s arbitrary: m) (auto split: if_splits)

lemma class_plus_shorter:
  "(m, r) \<in> set (class_plus P s) \<Longrightarrow> length r < length s"
  using class_plus_splits [of m r P s] by auto

function group_star :: "string \<Rightarrow> (string \<times> string) list" where
  "group_star s =
     (if take 2 s = ''--''
      then concat (map (\<lambda>(tok, r). map (\<lambda>(more, r'). (''--'' @ tok @ more, r')) (group_star r))
                    (class_plus not_dash (drop 2 s)))
      else []) @ [([], s)]"
  by pat_completeness auto
termination
  by (relation "measure length") (auto dest: class_plus_shorter)

declare group_star.simps [simp del]

definition tail_matches :: "string \<Rightarrow> bool" where
  "tail_matches s = (case s of [] \<Rightarrow> False | c # r \<Rightarrow> c = CHR ''-'' \<and> class_plus is_digit r \<noteq> [])"

definition successes :: "(string \<times> string) list \<Rightarrow> (string \<times> string) list" where
  "successes firsts =
     concat (map (\<lambda>(first, r1).
                    map (\<lambda>(rest, r2). (first, rest))
                      (filter (\<lambda>(rest, r2). tail_matches r2) (group_star r1)))
               firsts)"

definition match_here :: "string \<Rightarrow> (string \<times> string) option" where
  "match_here s =
     (if take 5 s = ''mpdm-''
      then (case successes (class_plus not_dash (drop 5 s)) of
              [] \<Rightarrow> None
            | m # _ \<Rightarrow> Some m)
      else None)"

fun match_mpdm :: "string \<Rightarrow> (string \<times> string) option" where
  "match_mpdm [] = match_here []"
| "match_mpdm (c # cs) =
     (case match_here (c # cs) of Some m \<Rightarrow> Some m | None \<Rightarrow> match_mpdm cs)"

text \<open>\<^verbatim>\<open>s.split(sep)\<close> for a separator that is not empty, as \<open>split_from sep [] s\<close>.\<close>

fun split_from :: "string \<Rightarrow> string \<Rightarrow> string \<Rightarrow> string list" where
  "split_from sep acc [] = [rev acc]"
| "split_from sep acc (c # cs) =
     (if sep \<noteq> [] \<and> take (length sep) (c # cs) = sep
      then rev acc # split_from sep [] (drop (length sep) (c # cs))
      else split_from sep (c # acc) cs)"

section \<open>getChannels\<close>

text \<open>
  The callbacks that \<^verbatim>\<open>getChannels\<close> maps over the entries of the three listings. A
  channel's type is the string the source writes.
\<close>

definition group_to_channel :: "json \<Rightarrow> error + channel" where
  "group_to_channel grp =
     (if nullish grp then Inl TypeError
      else
        let i = field grp ''id''; is_mpim = field grp ''is_mpim'';
            name = field grp ''name''
        in
        if truthy is_mpim
        then (case name of
                JStr s \<Rightarrow>
                  (case match_mpdm s of
                     Some (first, rest) \<Rightarrow>
                       Inr \<lparr>channel_id = i,
                            channel_name =
                              join '', ''
                                (map (\<lambda>element. CHR ''@'' # element)
                                   (first # filter (\<lambda>element. element \<noteq> [])
                                              (split_from ''--'' [] rest))),
                            channel_type = ''group''\<rparr>
                   | None \<Rightarrow>
                       Inr \<lparr>channel_id = i, channel_name = s, channel_type = ''group''\<rparr>)
              | _ \<Rightarrow> Inl TypeError)
        else Inr \<lparr>channel_id = i, channel_name = CHR ''#'' # js_to_string name,
                  channel_type = ''group''\<rparr>)"

definition channel_to_channel :: "json \<Rightarrow> error + channel" where
  "channel_to_channel ch =
     and_then (get_prop ch ''id'') (\<lambda>i.
     and_then (get_prop ch ''name'') (\<lambda>n.
     Inr \<lparr>channel_id = i, channel_name = CHR ''#'' # js_to_string n,
          channel_type = ''channel''\<rparr>))"

text \<open>
  The user directory is an object: the map \<open>users\<close> holds its own entries, and like every
  object it inherits the members of \<^verbatim>\<open>Object.prototype\<close>. \<^verbatim>\<open>im.user in users\<close> holds for an
  own key and for an inherited name alike, and \<^verbatim>\<open>users[im.user]\<close> is then the own entry,
  or else the inherited member. \<open>object_prototype\<close> lists the inherited names, each with
  what \<^verbatim>\<open>.name\<close> reads on the member: a function's own name (\<^verbatim>\<open>constructor\<close> is the
  function \<^verbatim>\<open>Object\<close>), and \<open>undefined\<close> on the prototype object that \<^verbatim>\<open>__proto__\<close> yields.
\<close>

definition object_prototype :: "(string \<times> json) list" where
  "object_prototype =
     [(''constructor'', JStr ''Object''),
      (''hasOwnProperty'', JStr ''hasOwnProperty''),
      (''isPrototypeOf'', JStr ''isPrototypeOf''),
      (''propertyIsEnumerable'', JStr ''propertyIsEnumerable''),
      (''toLocaleString'', JStr ''toLocaleString''),
      (''toString'', JStr ''toString''),
      (''valueOf'', JStr ''valueOf''),
      (''__defineGetter__'', JStr ''__defineGetter__''),
      (''__defineSetter__'', JStr ''__defineSetter__''),
      (''__lookupGetter__'', JStr ''__lookupGetter__''),
      (''__lookupSetter__'', JStr ''__lookupSetter__''),
      (''__proto__'', JUndefined)]"

definition im_to_channel :: "users \<Rightarrow> json \<Rightarrow> error + channel" where
  "im_to_channel users im =
     and_then (get_prop im ''id'') (\<lambda>i.
     and_then (get_prop im ''user'') (\<lambda>partner.
     Inr \<lparr>channel_id = i,
          channel_name =
            CHR ''@'' #
              js_to_string
                (case users (js_to_string partner) of
                   Some u \<Rightarrow> user_name u
                 | None \<Rightarrow>
                     (case map_of object_prototype (js_to_string partner) of
                        Some inherited_name \<Rightarrow> inherited_name
                      | None \<Rightarrow> partner)),
          channel_type = ''im''\<rparr>))"

text \<open>
  Each of the three \<^verbatim>\<open>.then\<close> callbacks destructures the response, and returns the
  mapped list inside \<^verbatim>\<open>if (ok)\<close>; otherwise it returns nothing, and the promise is
  fulfilled with \<open>undefined\<close>, which is \<open>None\<close>.
\<close>

definition segment :: "string \<Rightarrow> (json \<Rightarrow> error + channel) \<Rightarrow> json \<Rightarrow> error + channel list option" where
  "segment key f response =
     (if nullish response then Inl TypeError
      else
        let ok = field response ''ok''; items = field response key in
        if truthy ok then and_then (array_map items f) (\<lambda>cs. Inr (Some cs))
        else Inr None)"

text \<open>
  \<^verbatim>\<open>Promise.all\<close> is fulfilled with the list of the values, and rejected when one of the
  promises is (which rejection it reports when several are rejected rests on the order
  in which they settle; the model reports the leftmost). \<^verbatim>\<open>[].concat(...values)\<close>
  appends the elements of a value that is an array, and appends any other value as one
  element: an \<open>undefined\<close> value becomes an \<open>undefined\<close> element, \<open>None\<close>.
\<close>

fun promise_all :: "(error + 'a) list \<Rightarrow> error + 'a list" where
  "promise_all [] = Inr []"
| "promise_all (p # ps) =
     (case p of
        Inl e \<Rightarrow> Inl e
      | Inr v \<Rightarrow> (case promise_all ps of Inl e \<Rightarrow> Inl e | Inr vs \<Rightarrow> Inr (v # vs)))"

fun concat_values :: "'a list option list \<Rightarrow> 'a option list" where
  "concat_values [] = []"
| "concat_values (None # vs) = None # concat_values vs"
| "concat_values (Some xs # vs) = map Some xs @ concat_values vs"

definition getChannels :: "client \<Rightarrow> users \<Rightarrow> error + channel option list" where
  "getChannels client users =
     (let channels =
            and_then (client ''channels.list'' [(''exclude_archived'', JBool True)])
              (segment ''channels'' channel_to_channel);
          groups =
            and_then (client ''groups.list'' [(''exclude_archived'', JBool True)])
              (segment ''groups'' group_to_channel);
          directs =
            and_then (client ''im.list'' []) (segment ''ims'' (im_to_channel users))
      in and_then (promise_all [channels, groups, directs])
           (\<lambda>values. Inr (concat_values values)))"

section \<open>The shape of an encoded multi-party name\<close>

text \<open>
  The member tokens of an encoded name are not empty and hold no dash; after the first
  token each further one follows a double dash.
\<close>

definition dash_tokens :: "string list \<Rightarrow> bool" where
  "dash_tokens ts = (\<forall>t \<in> set ts. t \<noteq> [] \<and> CHR ''-'' \<notin> set t)"

definition encode_rest :: "string list \<Rightarrow> string" where
  "encode_rest ts = concat (map (\<lambda>t. ''--'' @ t) ts)"

text \<open>
  \<open>encoded_at s pre ts d z\<close>: after the prefix \<open>pre\<close> the name \<open>s\<close> reads \<^verbatim>\<open>mpdm-\<close>, the
  member tokens \<open>ts\<close> joined by double dashes, a dash, the digit \<open>d\<close>, and then \<open>z\<close>. This is
  what it is for the pattern to occur in the name; the pattern is not anchored, so
  anything may stand before it and after its first digit.
\<close>

definition encoded_at :: "string \<Rightarrow> string \<Rightarrow> string list \<Rightarrow> char \<Rightarrow> string \<Rightarrow> bool" where
  "encoded_at s pre ts d z \<longleftrightarrow>
     ts \<noteq> [] \<and> dash_tokens ts \<and> d \<in> set ''0123456789'' \<and>
     s = pre @ ''mpdm-'' @ join ''--'' ts @ CHR ''-'' # d # z"

text \<open>What one segment's value contributes to the combined list.\<close>

fun slots :: "'a list option \<Rightarrow> 'a option list" where
  "slots None = [None]"
| "slots (Some xs) = map Some xs"

section \<open>Facts about the pattern\<close>

lemma class_plus_complete:
  "m \<noteq> [] \<Longrightarrow> \<forall>c \<in> set m. P c \<Longrightarrow> (m, r) \<in> set (class_plus P (m @ r))"
proof (induction m)
  case Nil
  then show ?case by simp
next
  case (Cons c m)
  show ?case
  proof (cases "m = []")
    case True
    with Cons.prems show ?thesis by simp
  next
    case False
    with Cons have "(m, r) \<in> set (class_plus P (m @ r))" by simp
    with Cons.prems show ?thesis by force
  qed
qed

lemma group_star_sound:
  "(g, r) \<in> set (group_star s) \<Longrightarrow>
     \<exists>ts. dash_tokens ts \<and> g = encode_rest ts \<and> s = g @ r"
proof (induction s arbitrary: g r rule: group_star.induct)
  case (1 s)
  from "1.prems" have "(g, r) = ([], s) \<or>
    (take 2 s = ''--'' \<and> (\<exists>tok r1 more. (tok, r1) \<in> set (class_plus not_dash (drop 2 s)) \<and>
       (more, r) \<in> set (group_star r1) \<and> g = ''--'' @ tok @ more))"
    by (subst (asm) group_star.simps) (auto split: if_splits)
  then show ?case
  proof
    assume "(g, r) = ([], s)"
    then have "dash_tokens [] \<and> g = encode_rest [] \<and> s = g @ r"
      by (simp add: dash_tokens_def encode_rest_def)
    then show ?thesis by blast
  next
    assume "take 2 s = ''--'' \<and> (\<exists>tok r1 more. (tok, r1) \<in> set (class_plus not_dash (drop 2 s)) \<and>
       (more, r) \<in> set (group_star r1) \<and> g = ''--'' @ tok @ more)"
    then obtain tok r1 more where t2: "take 2 s = ''--''"
      and tok: "(tok, r1) \<in> set (class_plus not_dash (drop 2 s))"
      and more: "(more, r) \<in> set (group_star r1)" and g: "g = ''--'' @ tok @ more"
      by blast
    from "1.IH" [OF t2 tok refl more] obtain ts where
      ts: "dash_tokens ts" "more = encode_rest ts" "r1 = more @ r" by blast
    from class_plus_splits [OF tok] have
      d: "drop 2 s = tok @ r1" "tok \<noteq> []" "\<forall>c \<in> set tok. not_dash c" by auto
    have "s = take 2 s @ drop 2 s" by simp
    with t2 d ts g have "s = g @ r" by simp
    moreover from d ts have "dash_tokens (tok # ts)"
      by (auto simp: dash_tokens_def not_dash_def)
    moreover from g ts have "g = encode_rest (tok # ts)" by (simp add: encode_rest_def)
    ultimately show ?thesis by blast
  qed
qed

lemma group_star_complete:
  "dash_tokens ts \<Longrightarrow> (encode_rest ts, r) \<in> set (group_star (encode_rest ts @ r))"
proof (induction ts)
  case Nil
  show ?case by (subst group_star.simps) (simp add: encode_rest_def)
next
  case (Cons t ts)
  then have t: "t \<noteq> []" "\<forall>c \<in> set t. not_dash c" and ts: "dash_tokens ts"
    by (auto simp: dash_tokens_def not_dash_def)
  have 1: "(t, encode_rest ts @ r) \<in> set (class_plus not_dash (t @ encode_rest ts @ r))"
    using class_plus_complete [OF t] by blast
  have 2: "(encode_rest ts, r) \<in> set (group_star (encode_rest ts @ r))"
    using Cons.IH [OF ts] .
  have e: "encode_rest (t # ts) @ r = ''--'' @ t @ encode_rest ts @ r"
    by (simp add: encode_rest_def)
  show ?case
    apply (subst group_star.simps)
    apply (simp only: e)
    using 1 2 apply (simp add: encode_rest_def)
    apply force
    done
qed

lemma dash_free_unique:
  "CHR ''-'' \<notin> set t \<Longrightarrow> CHR ''-'' \<notin> set t' \<Longrightarrow> t @ CHR ''-'' # x = t' @ CHR ''-'' # x'
     \<Longrightarrow> t = t' \<and> x = x'"
proof (induction t arbitrary: t')
  case Nil
  then show ?case by (cases t') auto
next
  case (Cons c t)
  then show ?case by (cases t') auto
qed

lemma encode_rest_unique:
  "dash_tokens ts \<Longrightarrow> dash_tokens ts' \<Longrightarrow> d \<noteq> CHR ''-'' \<Longrightarrow> d' \<noteq> CHR ''-'' \<Longrightarrow>
   encode_rest ts @ CHR ''-'' # d # z = encode_rest ts' @ CHR ''-'' # d' # z' \<Longrightarrow> ts = ts'"
proof (induction ts arbitrary: ts')
  case Nil
  then show ?case by (cases ts') (auto simp: encode_rest_def)
next
  case (Cons t ts)
  show ?case
  proof (cases ts')
    case Nil
    with Cons.prems show ?thesis by (auto simp: encode_rest_def)
  next
    case (Cons t' ts'')
    have a: "encode_rest ts @ CHR ''-'' # d # z = CHR ''-'' # (tl (encode_rest ts @ CHR ''-'' # d # z))"
      by (cases ts) (auto simp: encode_rest_def)
    have b: "encode_rest ts'' @ CHR ''-'' # d' # z' = CHR ''-'' # (tl (encode_rest ts'' @ CHR ''-'' # d' # z'))"
      by (cases ts'') (auto simp: encode_rest_def)
    from Cons.prems Cons have eq: "t @ (encode_rest ts @ CHR ''-'' # d # z) = t' @ (encode_rest ts'' @ CHR ''-'' # d' # z')"
      by (simp add: encode_rest_def)
    from Cons.prems Cons have df: "CHR ''-'' \<notin> set t" "CHR ''-'' \<notin> set t'"
      by (auto simp: dash_tokens_def)
    from eq a b have "t @ CHR ''-'' # (tl (encode_rest ts @ CHR ''-'' # d # z)) = t' @ CHR ''-'' # (tl (encode_rest ts'' @ CHR ''-'' # d' # z'))"
      by metis
    from dash_free_unique [OF df this] a b
    have tt: "t = t'" and "encode_rest ts @ CHR ''-'' # d # z = encode_rest ts'' @ CHR ''-'' # d' # z'"
      by auto
    moreover from Cons.prems Cons have "dash_tokens ts" "dash_tokens ts''"
      by (auto simp: dash_tokens_def)
    ultimately have "ts = ts''" using Cons.IH Cons.prems by blast
    with tt Cons show ?thesis by simp
  qed
qed


lemma starts_with_dash:
  "\<exists>w. encode_rest ts @ CHR ''-'' # y = CHR ''-'' # w"
  by (cases ts) (auto simp: encode_rest_def)

lemma is_digit_not_dash: "is_digit d \<Longrightarrow> d \<noteq> CHR ''-''"
  by (auto simp: is_digit_def)

lemma tail_matchesD:
  "tail_matches r \<Longrightarrow> \<exists>d z. r = CHR ''-'' # d # z \<and> is_digit d"
proof -
  assume a: "tail_matches r"
  then obtain r' where r: "r = CHR ''-'' # r'" and c: "class_plus is_digit r' \<noteq> []"
    by (auto simp: tail_matches_def split: list.splits)
  from c obtain d z where "r' = d # z" "is_digit d"
    by (cases r') (auto split: if_splits)
  with r show ?thesis by blast
qed

lemma tail_matchesI: "is_digit d \<Longrightarrow> tail_matches (CHR ''-'' # d # z)"
  by (simp add: tail_matches_def)

lemma successes_iff:
  "x \<in> set (successes A) \<longleftrightarrow>
     (\<exists>first r1 rest r2. x = (first, rest) \<and> (first, r1) \<in> set A \<and>
        (rest, r2) \<in> set (group_star r1) \<and> tail_matches r2)"
  by (force simp: successes_def)

lemma match_here_encoded:
  assumes tok: "dash_tokens (t # ts)" and dig: "is_digit d"
  shows "match_here (''mpdm-'' @ t @ encode_rest ts @ CHR ''-'' # d # z) = Some (t, encode_rest ts)"
proof -
  let ?body = "t @ encode_rest ts @ CHR ''-'' # d # z"
  let ?L = "successes (class_plus not_dash ?body)"
  from tok have t: "t \<noteq> []" "\<forall>c \<in> set t. not_dash c" "CHR ''-'' \<notin> set t" and ts: "dash_tokens ts"
    by (auto simp: dash_tokens_def not_dash_def)
  have 1: "(t, encode_rest ts @ CHR ''-'' # d # z) \<in> set (class_plus not_dash ?body)"
    using class_plus_complete [OF t(1,2)] by blast
  have 2: "(encode_rest ts, CHR ''-'' # d # z) \<in> set (group_star (encode_rest ts @ CHR ''-'' # d # z))"
    using group_star_complete [OF ts] by blast
  have mem: "(t, encode_rest ts) \<in> set ?L"
    unfolding successes_iff using 1 2 tail_matchesI [OF dig, of z] by blast
  have uniq: "x = (t, encode_rest ts)" if "x \<in> set ?L" for x
  proof -
    from that obtain first r1 rest r2 where x: "x = (first, rest)"
      and f: "(first, r1) \<in> set (class_plus not_dash ?body)"
      and g: "(rest, r2) \<in> set (group_star r1)" and tm: "tail_matches r2"
      unfolding successes_iff using 1 2 tail_matchesI [OF dig, of z] by blast
    from class_plus_splits [OF f] have f': "?body = first @ r1" "CHR ''-'' \<notin> set first"
      by (auto simp: not_dash_def)
    from group_star_sound [OF g] obtain ts2 where
      g': "dash_tokens ts2" "rest = encode_rest ts2" "r1 = rest @ r2" by blast
    from tail_matchesD [OF tm] obtain d2 z2 where r2: "r2 = CHR ''-'' # d2 # z2" "is_digit d2"
      by blast
    obtain w where w: "encode_rest ts @ CHR ''-'' # d # z = CHR ''-'' # w"
      using starts_with_dash by blast
    obtain w2 where w2: "encode_rest ts2 @ CHR ''-'' # d2 # z2 = CHR ''-'' # w2"
      using starts_with_dash by blast
    from f' g' r2 have "t @ (encode_rest ts @ CHR ''-'' # d # z) = first @ (encode_rest ts2 @ CHR ''-'' # d2 # z2)"
      by simp
    then have "t @ CHR ''-'' # w = first @ CHR ''-'' # w2" using w w2 by simp
    from dash_free_unique [OF t(3) f'(2) this] have tf: "t = first" and "w = w2" by auto
    with w w2 have "encode_rest ts @ CHR ''-'' # d # z = encode_rest ts2 @ CHR ''-'' # d2 # z2"
      by simp
    from encode_rest_unique [OF ts g'(1) is_digit_not_dash [OF dig] is_digit_not_dash [OF r2(2)] this]
    have "ts = ts2" .
    with tf g' x show ?thesis by simp
  qed
  from mem obtain x xs where L: "?L = x # xs" by (cases ?L) auto
  then have "x \<in> set ?L" by simp
  from uniq [OF this] L have "?L = (t, encode_rest ts) # xs" by simp
  then show ?thesis by (simp add: match_here_def)
qed

lemma match_mpdm_here: "match_here s = Some m \<Longrightarrow> match_mpdm s = Some m"
  by (cases s) auto

lemma join_encode: "join ''--'' (t # ts) = t @ encode_rest ts"
  by (induction ts arbitrary: t) (auto simp: encode_rest_def)

lemma split_from_encoded:
  "CHR ''-'' \<notin> set t \<Longrightarrow> \<forall>x \<in> set ts. CHR ''-'' \<notin> set x \<Longrightarrow>
   split_from ''--'' acc (t @ encode_rest ts) = (rev acc @ t) # ts"
proof (induction ts arbitrary: t acc)
  case Nil
  then show ?case by (induction t arbitrary: acc) (auto simp: encode_rest_def)
next
  case (Cons a ts)
  have step: "split_from ''--'' acc (encode_rest (a # ts)) = rev acc # a # ts" for acc
    using Cons.IH [of a "[]"] Cons.prems by (simp add: encode_rest_def)
  from Cons.prems(1) show ?case
  proof (induction t arbitrary: acc)
    case Nil
    then show ?case using step by simp
  next
    case (Cons c t)
    then show ?case by auto
  qed
qed

lemma rest_members:
  "dash_tokens ts \<Longrightarrow>
   filter (\<lambda>element. element \<noteq> []) (split_from ''--'' [] (encode_rest ts)) = ts"
  using split_from_encoded [of "[]" ts "[]"]
  by (auto simp: dash_tokens_def filter_id_conv)


lemma match_here_sound:
  assumes "match_here x = Some (first, rest)"
  shows "\<exists>ts d z. x = ''mpdm-'' @ first @ encode_rest ts @ CHR ''-'' # d # z \<and>
           rest = encode_rest ts \<and> dash_tokens (first # ts) \<and> is_digit d"
proof -
  from assms have p: "take 5 x = ''mpdm-''"
    and "(first, rest) \<in> set (successes (class_plus not_dash (drop 5 x)))"
    by (auto simp: match_here_def split: if_splits list.splits)
  then obtain r1 r2 where f: "(first, r1) \<in> set (class_plus not_dash (drop 5 x))"
    and g: "(rest, r2) \<in> set (group_star r1)" and tm: "tail_matches r2"
    unfolding successes_iff by blast
  from class_plus_splits [OF f] have f': "drop 5 x = first @ r1" "first \<noteq> []" "CHR ''-'' \<notin> set first"
    by (auto simp: not_dash_def)
  from group_star_sound [OF g] obtain ts where
    g': "dash_tokens ts" "rest = encode_rest ts" "r1 = rest @ r2" by blast
  from tail_matchesD [OF tm] obtain d z where r2: "r2 = CHR ''-'' # d # z" "is_digit d"
    by blast
  have "x = take 5 x @ drop 5 x" by simp
  with p f' g' r2 have "x = ''mpdm-'' @ first @ encode_rest ts @ CHR ''-'' # d # z" by simp
  moreover from f' g' have "dash_tokens (first # ts)" by (simp add: dash_tokens_def)
  ultimately show ?thesis using g' r2 by blast
qed

lemma match_mpdm_somewhere:
  "match_mpdm s = Some m \<Longrightarrow> \<exists>pre x. s = pre @ x \<and> match_here x = Some m"
proof (induction s)
  case Nil
  then show ?case by simp
next
  case (Cons c cs)
  show ?case
  proof (cases "match_here (c # cs)")
    case None
    with Cons obtain pre x where "cs = pre @ x" "match_here x = Some m" by auto
    then have "c # cs = (c # pre) @ x \<and> match_here x = Some m" by simp
    then show ?thesis by blast
  next
    case (Some a)
    with Cons.prems have "c # cs = [] @ (c # cs) \<and> match_here (c # cs) = Some m" by simp
    then show ?thesis by blast
  qed
qed

lemma match_mpdm_after: "match_here x \<noteq> None \<Longrightarrow> match_mpdm (pre @ x) \<noteq> None"
proof (induction pre)
  case Nil
  then show ?case using match_mpdm_here [of x] by auto
next
  case (Cons c pre)
  then show ?case by (auto split: option.splits)
qed

lemma match_mpdm_iff:
  "match_mpdm s \<noteq> None \<longleftrightarrow>
     (\<exists>pre t ts d z. s = pre @ ''mpdm-'' @ t @ encode_rest ts @ CHR ''-'' # d # z \<and>
        dash_tokens (t # ts) \<and> is_digit d)"
proof
  assume "match_mpdm s \<noteq> None"
  then obtain first rest where "match_mpdm s = Some (first, rest)" by auto
  from match_mpdm_somewhere [OF this] obtain pre x where
    s: "s = pre @ x" and "match_here x = Some (first, rest)" by blast
  from match_here_sound [OF this(2)] s
  show "\<exists>pre t ts d z. s = pre @ ''mpdm-'' @ t @ encode_rest ts @ CHR ''-'' # d # z \<and>
        dash_tokens (t # ts) \<and> is_digit d" by blast
next
  assume "\<exists>pre t ts d z. s = pre @ ''mpdm-'' @ t @ encode_rest ts @ CHR ''-'' # d # z \<and>
        dash_tokens (t # ts) \<and> is_digit d"
  then obtain pre t ts d z where s: "s = pre @ (''mpdm-'' @ t @ encode_rest ts @ CHR ''-'' # d # z)"
    and tok: "dash_tokens (t # ts)" and dig: "is_digit d" by auto
  from match_here_encoded [OF tok dig, of z] have
    "match_here (''mpdm-'' @ t @ encode_rest ts @ CHR ''-'' # d # z) \<noteq> None" by simp
  from match_mpdm_after [OF this] s show "match_mpdm s \<noteq> None" by blast
qed

lemma match_mpdm_encoded:
  assumes "dash_tokens ts" "ts \<noteq> []" "n \<noteq> []" "\<forall>c \<in> set n. is_digit c"
  shows "match_mpdm (''mpdm-'' @ join ''--'' ts @ ''-'' @ n) = Some (hd ts, encode_rest (tl ts))"
proof -
  from assms obtain t ts' where ts: "ts = t # ts'" by (cases ts) auto
  from assms obtain d z where n: "n = d # z" "is_digit d" by (cases n) auto
  from match_here_encoded [of t ts' d z] assms(1) ts n(2)
  have "match_here (''mpdm-'' @ t @ encode_rest ts' @ CHR ''-'' # d # z) = Some (t, encode_rest ts')"
    by simp
  from match_mpdm_here [OF this] show ?thesis
    by (simp add: ts n join_encode)
qed

lemma match_mpdm_skip:
  "(\<forall>p q. pre = p @ q \<and> q \<noteq> [] \<longrightarrow> match_here (q @ x) = None) \<Longrightarrow>
   match_mpdm (pre @ x) = match_mpdm x"
proof (induction pre)
  case Nil
  then show ?case by simp
next
  case (Cons c pre)
  from Cons.prems have "match_here ((c # pre) @ x) = None" by blast
  moreover have "\<forall>p q. pre = p @ q \<and> q \<noteq> [] \<longrightarrow> match_here (q @ x) = None"
  proof (intro allI impI)
    fix p q
    assume "pre = p @ q \<and> q \<noteq> []"
    then have "c # pre = (c # p) @ q \<and> q \<noteq> []" by simp
    with Cons.prems show "match_here (q @ x) = None" by blast
  qed
  ultimately show ?case using Cons.IH by simp
qed

lemma encoded_at_leftmost:
  assumes enc: "encoded_at s pre ts d z"
    and first: "\<forall>pre' ts' d' z'. encoded_at s pre' ts' d' z' \<longrightarrow> length pre \<le> length pre'"
  shows "match_mpdm s = Some (hd ts, encode_rest (tl ts))"
proof -
  from enc obtain t ts' where ts: "ts = t # ts'" by (cases ts) (auto simp: encoded_at_def)
  let ?x = "''mpdm-'' @ t @ encode_rest ts' @ CHR ''-'' # d # z"
  from enc ts have s: "s = pre @ ?x" and tok: "dash_tokens (t # ts')" and dig: "is_digit d"
    by (auto simp: encoded_at_def join_encode is_digit_def)
  have here: "match_here ?x = Some (t, encode_rest ts')"
    using match_here_encoded [OF tok dig] .
  have "\<forall>p q. pre = p @ q \<and> q \<noteq> [] \<longrightarrow> match_here (q @ ?x) = None"
  proof (intro allI impI)
    fix p q
    assume pq: "pre = p @ q \<and> q \<noteq> []"
    show "match_here (q @ ?x) = None"
    proof (rule ccontr)
      assume "match_here (q @ ?x) \<noteq> None"
      then obtain f r where "match_here (q @ ?x) = Some (f, r)" by auto
      from match_here_sound [OF this] obtain ts2 d2 z2 where
        q: "q @ ?x = ''mpdm-'' @ f @ encode_rest ts2 @ CHR ''-'' # d2 # z2"
        and tok2: "dash_tokens (f # ts2)" and dig2: "is_digit d2" by blast
      from s pq q have "s = p @ ''mpdm-'' @ join ''--'' (f # ts2) @ CHR ''-'' # d2 # z2"
        by (simp add: join_encode)
      with tok2 dig2 have "encoded_at s p (f # ts2) d2 z2"
        by (simp add: encoded_at_def is_digit_def)
      with first have "length pre \<le> length p" by blast
      with pq show False by simp
    qed
  qed
  from match_mpdm_skip [OF this] match_mpdm_here [OF here] s ts show ?thesis by simp
qed

lemma encoded_at_matches:
  "encoded_at s pre ts d z \<Longrightarrow> match_mpdm s \<noteq> None"
proof -
  assume enc: "encoded_at s pre ts d z"
  then obtain t ts' where ts: "ts = t # ts'" by (cases ts) (auto simp: encoded_at_def)
  with enc have "s = pre @ ''mpdm-'' @ t @ encode_rest ts' @ CHR ''-'' # d # z \<and>
        dash_tokens (t # ts') \<and> is_digit d"
    by (auto simp: encoded_at_def join_encode is_digit_def)
  then show ?thesis using match_mpdm_iff [of s] by blast
qed

lemma not_encoded_no_match:
  assumes "\<forall>pre ts d z. \<not> encoded_at s pre ts d z"
  shows "match_mpdm s = None"
proof (rule ccontr)
  assume "match_mpdm s \<noteq> None"
  then obtain pre t ts d z where
    "s = pre @ ''mpdm-'' @ t @ encode_rest ts @ CHR ''-'' # d # z" "dash_tokens (t # ts)" "is_digit d"
    using match_mpdm_iff [of s] by blast
  then have "encoded_at s pre (t # ts) d z"
    by (simp add: encoded_at_def join_encode is_digit_def)
  with assms show False by blast
qed

lemma group_to_channel_mpim:
  "truthy (field grp ''is_mpim'') \<Longrightarrow> field grp ''name'' = JStr s \<Longrightarrow>
   group_to_channel grp =
     (case match_mpdm s of
        Some (first, rest) \<Rightarrow>
          Inr \<lparr>channel_id = field grp ''id'',
               channel_name =
                 join '', ''
                   (map (\<lambda>element. CHR ''@'' # element)
                      (first # filter (\<lambda>element. element \<noteq> [])
                                 (split_from ''--'' [] rest))),
               channel_type = ''group''\<rparr>
      | None \<Rightarrow>
          Inr \<lparr>channel_id = field grp ''id'', channel_name = s, channel_type = ''group''\<rparr>)"
proof -
  assume tr: "truthy (field grp ''is_mpim'')" and nm: "field grp ''name'' = JStr s"
  from tr have "\<not> nullish grp" by (cases grp) auto
  with tr nm show ?thesis by (simp add: group_to_channel_def Let_def)
qed

section \<open>Facts about getMessage\<close>

lemma and_then_Inr: "and_then p f = Inr y \<longleftrightarrow> (\<exists>x. p = Inr x \<and> f x = Inr y)"
  by (cases p) (simp_all add: and_then_def)

lemma first_field_bad: "no_first v \<Longrightarrow> first_field v f = Inl TypeError"
  by (cases v rule: no_first.cases)
    (auto simp: first_field_def and_then_def get_prop_def split: option.splits)

lemma first_field_good: "\<not> no_first v \<Longrightarrow> \<exists>y. first_field v f = Inr y"
  by (cases v rule: no_first.cases)
    (auto simp: first_field_def and_then_def get_prop_def split: option.splits list.splits)

lemma and_then_Inr_left: "and_then (Inr v) f = f v"
  by (simp add: and_then_def)

lemma and_then_assoc:
  "and_then (and_then p f) g = and_then p (\<lambda>x. and_then (f x) g)"
  by (cases p) (simp_all add: and_then_def)

lemma getMessage_parts:
  "\<not> nullish raw \<Longrightarrow>
   getMessage raw =
     and_then (file_part (field raw ''files'')) (\<lambda>fileAttachment.
     and_then (reactions_part (field raw ''reactions'')) (\<lambda>rs.
     and_then (content_part (field raw ''attachments'')) (\<lambda>c.
     Inr [js_to_string (field raw ''ts'') \<mapsto>
       \<lparr>userId = (if truthy (field raw ''user'') then field raw ''user''
                  else field raw ''bot_id''),
        timestamp = field raw ''ts'',
        isEdited = truthy (field raw ''edited''),
        message_text = field raw ''text'',
        attachment = fileAttachment,
        reactions = rs,
        content = c\<rparr>])))"
  by (simp add: getMessage_def file_part_def reactions_part_def reaction_of_def [abs_def]
      content_part_def Let_def and_then_assoc and_then_Inr_left)

lemma file_part_bad: "truthy v \<Longrightarrow> no_first v \<Longrightarrow> file_part v = Inl TypeError"
  by (simp add: file_part_def first_field_bad and_then_def)

lemma file_part_good:
  "\<not> (truthy v \<and> no_first v) \<Longrightarrow> \<exists>fa. file_part v = Inr fa \<and> (\<not> truthy v \<longrightarrow> fa = None)"
proof (cases "truthy v")
  case True
  assume "\<not> (truthy v \<and> no_first v)"
  with True have "\<not> no_first v" by simp
  from first_field_good [OF this, of "''name''"] first_field_good [OF this, of "''permalink''"]
  show ?thesis using True by (auto simp: file_part_def and_then_def)
next
  case False
  then show ?thesis by (simp add: file_part_def)
qed

lemma map_elements_reactions_bad:
  "\<exists>r \<in> set rs. nullish r \<Longrightarrow> map_elements reaction_of rs = Inl TypeError"
proof (induction rs)
  case Nil
  then show ?case by simp
next
  case (Cons r rs)
  show ?case
  proof (cases "nullish r")
    case True
    then show ?thesis by (simp add: reaction_of_def get_prop_def and_then_def)
  next
    case False
    with Cons have "map_elements reaction_of rs = Inl TypeError" by auto
    moreover from False have "\<exists>y. reaction_of r = Inr y"
      by (simp add: reaction_of_def get_prop_def and_then_def)
    ultimately show ?thesis by auto
  qed
qed

lemma reaction_of_good: "\<not> nullish r \<Longrightarrow> \<exists>y. reaction_of r = Inr y"
  by (simp add: reaction_of_def get_prop_def and_then_def)

lemma map_elements_reactions_good:
  "\<forall>r \<in> set rs. \<not> nullish r \<Longrightarrow> \<exists>ys. map_elements reaction_of rs = Inr ys"
proof (induction rs)
  case Nil
  then show ?case by simp
next
  case (Cons r rs)
  then obtain ys where "map_elements reaction_of rs = Inr ys" by auto
  moreover from Cons.prems reaction_of_good [of r] obtain y where "reaction_of r = Inr y"
    by auto
  ultimately show ?case by simp
qed

lemma reactions_part_bad:
  "truthy v \<Longrightarrow> not_mappable v \<Longrightarrow> reactions_part v = Inl TypeError"
  by (cases v) (simp_all add: reactions_part_def map_elements_reactions_bad)

lemma reactions_part_good:
  "\<not> (truthy v \<and> not_mappable v) \<Longrightarrow>
   \<exists>rs. reactions_part v = Inr rs \<and> (\<not> truthy v \<longrightarrow> rs = [])"
proof (cases "truthy v")
  case True
  assume "\<not> (truthy v \<and> not_mappable v)"
  with True have "\<not> not_mappable v" by simp
  then obtain xs where "v = JArr xs" "\<forall>r \<in> set xs. \<not> nullish r" by (cases v) auto
  with map_elements_reactions_good [of xs] show ?thesis by (auto simp: reactions_part_def)
next
  case False
  then show ?thesis by (simp add: reactions_part_def)
qed

lemma content_part_bad: "truthy v \<Longrightarrow> no_first v \<Longrightarrow> content_part v = Inl TypeError"
  by (simp add: content_part_def content_field_def first_field_bad and_then_def)

lemma content_part_good:
  "\<not> (truthy v \<and> no_first v) \<Longrightarrow>
   \<exists>c. content_part v = Inr c \<and> (\<not> truthy v \<longrightarrow> c = empty_content)"
proof (cases "truthy v")
  case True
  assume "\<not> (truthy v \<and> no_first v)"
  with True have n: "\<not> no_first v" by simp
  have "\<exists>y. content_field v f = Inr y" for f
    using first_field_good [OF n, of f] True by (simp add: content_field_def)
  then obtain g where g: "content_field v f = Inr (g f)" for f by metis
  show ?thesis by (simp add: content_part_def g and_then_def True)
next
  case False
  then show ?thesis
    by (simp add: content_part_def content_field_def and_then_def empty_content_def)
qed

lemma getMessage_Inr:
  assumes "getMessage raw = Inr m"
  shows "\<exists>r. m = [js_to_string (field raw ''ts'') \<mapsto> r] \<and>
     userId r = (if truthy (field raw ''user'') then field raw ''user'' else field raw ''bot_id'') \<and>
     timestamp r = field raw ''ts'' \<and>
     isEdited r = truthy (field raw ''edited'') \<and>
     message_text r = field raw ''text'' \<and>
     (\<not> truthy (field raw ''files'') \<longrightarrow> attachment r = None) \<and>
     (\<not> truthy (field raw ''reactions'') \<longrightarrow> reactions r = []) \<and>
     (\<not> truthy (field raw ''attachments'') \<longrightarrow> content r = empty_content)"
  using assms
  by (auto simp: getMessage_def and_then_Inr Let_def content_field_def empty_content_def
      split: if_splits)

section \<open>Facts about the combination of the segments\<close>

lemma getChannels_of_segments:
  assumes "client ''channels.list'' [(''exclude_archived'', JBool True)] = Inr r1"
    and "client ''groups.list'' [(''exclude_archived'', JBool True)] = Inr r2"
    and "client ''im.list'' [] = Inr r3"
    and "segment ''channels'' channel_to_channel r1 = Inr v1"
    and "segment ''groups'' group_to_channel r2 = Inr v2"
    and "segment ''ims'' (im_to_channel users) r3 = Inr v3"
  shows "getChannels client users = Inr (slots v1 @ slots v2 @ slots v3)"
  using assms
  by (cases v1; cases v2; cases v3) (simp_all add: getChannels_def and_then_def)

lemma segment_not_ok:
  "\<not> nullish response \<Longrightarrow> \<not> truthy (field response ''ok'') \<Longrightarrow> segment key f response = Inr None"
  by (simp add: segment_def Let_def)

lemma map_elements_Inr:
  "map f xs = map Inr ys \<Longrightarrow> map_elements f xs = Inr ys"
  by (induction xs arbitrary: ys) auto

lemma segment_ok:
  "truthy (field response ''ok'') \<Longrightarrow> field response key = JArr xs \<Longrightarrow> map f xs = map Inr ys \<Longrightarrow>
   segment key f response = Inr (Some ys)"
proof -
  assume a: "truthy (field response ''ok'')" "field response key = JArr xs" "map f xs = map Inr ys"
  then have "\<not> nullish response" by (cases response) auto
  with a show ?thesis by (simp add: segment_def Let_def and_then_def map_elements_Inr)
qed

lemma getChannels_all_ok:
  assumes "client ''channels.list'' [(''exclude_archived'', JBool True)] = Inr r1"
    and "client ''groups.list'' [(''exclude_archived'', JBool True)] = Inr r2"
    and "client ''im.list'' [] = Inr r3"
    and "truthy (field r1 ''ok'')" and "field r1 ''channels'' = JArr xs1"
    and "map channel_to_channel xs1 = map Inr cs"
    and "truthy (field r2 ''ok'')" and "field r2 ''groups'' = JArr xs2"
    and "map group_to_channel xs2 = map Inr gs"
    and "truthy (field r3 ''ok'')" and "field r3 ''ims'' = JArr xs3"
    and "map (im_to_channel users) xs3 = map Inr ds"
  shows "getChannels client users = Inr (map Some (cs @ gs @ ds))"
  using getChannels_of_segments [OF assms(1-3) segment_ok [OF assms(4-6)]
      segment_ok [OF assms(7-9)] segment_ok [OF assms(10-12)]]
  by simp

lemma getChannels_failed_first:
  assumes "client ''channels.list'' [(''exclude_archived'', JBool True)] = Inr r1"
    and "client ''groups.list'' [(''exclude_archived'', JBool True)] = Inr r2"
    and "client ''im.list'' [] = Inr r3"
    and "\<not> nullish r1" and "\<not> truthy (field r1 ''ok'')"
    and "truthy (field r2 ''ok'')" and "field r2 ''groups'' = JArr xs2"
    and "map group_to_channel xs2 = map Inr gs"
    and "truthy (field r3 ''ok'')" and "field r3 ''ims'' = JArr xs3"
    and "map (im_to_channel users) xs3 = map Inr ds"
  shows "getChannels client users = Inr (None # map Some (gs @ ds))"
  using getChannels_of_segments [OF assms(1-3) segment_not_ok [OF assms(4,5)]
      segment_ok [OF assms(6-8)] segment_ok [OF assms(9-11)]]
  by simp

section \<open>Facts about the fold of the history\<close>

lemma forEach_spread:
  "map getMessage ms = map Inr gs \<Longrightarrow>
   forEach ms (\<lambda>message result. and_then (getMessage message) (\<lambda>m. Inr (result ++ m))) acc
     = Inr (foldl (++) acc gs)"
proof (induction ms arbitrary: acc gs)
  case Nil
  then show ?case by simp
next
  case (Cons x xs)
  then obtain g gs' where gs: "gs = g # gs'" "getMessage x = Inr g" "map getMessage xs = map Inr gs'"
    by (cases gs) auto
  with Cons.IH [OF gs(3)] show ?case by (simp add: and_then_def)
qed

lemma foldl_spread_absent:
  "\<forall>g \<in> set gs. g k = None \<Longrightarrow> foldl (++) acc gs k = acc k"
  by (induction gs arbitrary: acc) (simp_all add: map_add_def)

lemma foldl_spread_last:
  assumes "i < length gs" and "(gs ! i) k = Some r"
    and "\<forall>j. i < j \<and> j < length gs \<longrightarrow> (gs ! j) k = None"
  shows "foldl (++) acc gs k = Some r"
proof -
  have split: "gs = take i gs @ (gs ! i) # drop (Suc i) gs"
    using assms(1) by (simp add: id_take_nth_drop)
  have later: "\<forall>g \<in> set (drop (Suc i) gs). g k = None"
  proof
    fix g
    assume "g \<in> set (drop (Suc i) gs)"
    then obtain n where n: "n < length (drop (Suc i) gs)" "g = drop (Suc i) gs ! n"
      by (auto simp: in_set_conv_nth)
    then have "g = gs ! (Suc i + n)" "Suc i + n < length gs" by auto
    with assms(3) show "g k = None" by auto
  qed
  have "foldl (++) acc gs = foldl (++) (foldl (++) acc (take i gs) ++ (gs ! i)) (drop (Suc i) gs)"
    by (subst split) (simp only: foldl_append foldl_Cons)
  then have "foldl (++) acc gs k = (foldl (++) acc (take i gs) ++ (gs ! i)) k"
    using foldl_spread_absent [OF later] by simp
  with assms(2) show ?thesis by (simp add: map_add_def)
qed

lemma getConversationHistory_ok:
  assumes "client ''conversations.history'' [(''channel'', JStr channel), (''limit'', JNum 50)]
             = Inr response"
    and "truthy (field response ''ok'')"
    and "field response ''messages'' = JArr ms"
    and "map getMessage ms = map Inr gs"
  shows "getConversationHistory client channel = Inr (foldl (++) Map.empty gs)"
proof -
  from assms(2) have "\<not> nullish response" by (cases response) auto
  with assms show ?thesis
    by (simp add: getConversationHistory_def HISTORY_LIMIT_def and_then_Inr_left Let_def
        forEach_spread)
qed

lemma normalized_nth:
  assumes "map getMessage ms = map Inr gs" and "j < length ms"
  shows "\<exists>r. gs ! j = [js_to_string (field (ms ! j) ''ts'') \<mapsto> r]"
proof -
  from assms(1) have "length ms = length gs"
    by (metis length_map)
  with assms have "getMessage (ms ! j) = Inr (gs ! j)"
    by (metis nth_map)
  from getMessage_Inr [OF this] show ?thesis by blast
qed

section \<open>Properties\<close>

text \<open>
  C2: for a group flagged multi-party whose raw name holds the pattern, that is
  \<^verbatim>\<open>mpdm-\<close>, member tokens joined by \<^verbatim>\<open>--\<close>, a dash and a digit (\<^verbatim>\<open>mpdm-a--b-1\<close>), the
  channel is named by the tokens of the leftmost such occurrence, each prefixed by \<^verbatim>\<open>@\<close>
  and joined by a comma and a space (\<^verbatim>\<open>@a, @b\<close>), the numeric suffix dropped; a
  multi-party group whose raw name holds no such occurrence keeps the raw name verbatim;
  a group that is not multi-party is named \<^verbatim>\<open>#\<close> followed by its raw name.
\<close>

theorem group_name_derivation:
  "(truthy (field grp ''is_mpim'') \<and> field grp ''name'' = JStr s \<and>
    encoded_at s pre ts d z \<and>
    (\<forall>pre' ts' d' z'. encoded_at s pre' ts' d' z' \<longrightarrow> length pre \<le> length pre') \<longrightarrow>
      group_to_channel grp =
        Inr \<lparr>channel_id = field grp ''id'',
             channel_name = join '', '' (map (\<lambda>t. CHR ''@'' # t) ts),
             channel_type = ''group''\<rparr>) \<and>
   (truthy (field grp ''is_mpim'') \<and> field grp ''name'' = JStr s \<and>
    (\<forall>pre ts d z. \<not> encoded_at s pre ts d z) \<longrightarrow>
      group_to_channel grp =
        Inr \<lparr>channel_id = field grp ''id'', channel_name = s, channel_type = ''group''\<rparr>) \<and>
   (\<not> nullish grp \<and> \<not> truthy (field grp ''is_mpim'') \<longrightarrow>
      group_to_channel grp =
        Inr \<lparr>channel_id = field grp ''id'',
             channel_name = CHR ''#'' # js_to_string (field grp ''name''),
             channel_type = ''group''\<rparr>)"
proof (intro conjI impI)
  assume a: "truthy (field grp ''is_mpim'') \<and> field grp ''name'' = JStr s \<and>
    encoded_at s pre ts d z \<and>
    (\<forall>pre' ts' d' z'. encoded_at s pre' ts' d' z' \<longrightarrow> length pre \<le> length pre')"
  then have tr: "truthy (field grp ''is_mpim'')" and nm: "field grp ''name'' = JStr s"
    and enc: "encoded_at s pre ts d z"
    and first: "\<forall>pre' ts' d' z'. encoded_at s pre' ts' d' z' \<longrightarrow> length pre \<le> length pre'"
    by blast+
  have m: "match_mpdm s = Some (hd ts, encode_rest (tl ts))"
    using encoded_at_leftmost [OF enc first] .
  from enc have ne: "ts \<noteq> []" and "dash_tokens (tl ts)"
    by (cases ts; auto simp: encoded_at_def dash_tokens_def)+
  from rest_members [OF this(2)] ne
  have members:
    "hd ts # filter (\<lambda>element. element \<noteq> []) (split_from ''--'' [] (encode_rest (tl ts))) = ts"
    by simp
  show "group_to_channel grp =
        Inr \<lparr>channel_id = field grp ''id'',
             channel_name = join '', '' (map (\<lambda>t. CHR ''@'' # t) ts),
             channel_type = ''group''\<rparr>"
    by (simp only: group_to_channel_mpim [OF tr nm] m option.case prod.case members)
next
  assume b: "truthy (field grp ''is_mpim'') \<and> field grp ''name'' = JStr s \<and>
    (\<forall>pre ts d z. \<not> encoded_at s pre ts d z)"
  then have "match_mpdm s = None" using not_encoded_no_match by blast
  with b show "group_to_channel grp =
        Inr \<lparr>channel_id = field grp ''id'', channel_name = s, channel_type = ''group''\<rparr>"
    using group_to_channel_mpim [of grp s] by simp
next
  assume "\<not> nullish grp \<and> \<not> truthy (field grp ''is_mpim'')"
  then show "group_to_channel grp =
        Inr \<lparr>channel_id = field grp ''id'',
             channel_name = CHR ''#'' # js_to_string (field grp ''name''),
             channel_type = ''group''\<rparr>"
    by (simp add: group_to_channel_def Let_def)
qed

theorem group_name_derivation_witness:
  "group_to_channel
     (JObj [(''id'', JStr ''G1''), (''is_mpim'', JBool True), (''name'', JStr ''mpdm-a--b-1'')])
     = Inr \<lparr>channel_id = JStr ''G1'', channel_name = ''@a, @b'', channel_type = ''group''\<rparr> \<and>
   group_to_channel
     (JObj [(''id'', JStr ''G2''), (''is_mpim'', JBool True), (''name'', JStr ''lunch'')])
     = Inr \<lparr>channel_id = JStr ''G2'', channel_name = ''lunch'', channel_type = ''group''\<rparr> \<and>
   group_to_channel
     (JObj [(''id'', JStr ''G3''), (''is_mpim'', JBool False), (''name'', JStr ''dev'')])
     = Inr \<lparr>channel_id = JStr ''G3'', channel_name = ''#dev'', channel_type = ''group''\<rparr> \<and>
   group_to_channel
     (JObj [(''id'', JStr ''G4''), (''is_mpim'', JBool True),
            (''name'', JStr ''mpdm-bob--agent-007--carl-1'')])
     = Inr \<lparr>channel_id = JStr ''G4'', channel_name = ''@bob, @agent'',
            channel_type = ''group''\<rparr> \<and>
   group_to_channel
     (JObj [(''id'', JStr ''G5''), (''is_mpim'', JBool True),
            (''name'', JStr ''xxmpdm-a--b-1yy'')])
     = Inr \<lparr>channel_id = JStr ''G5'', channel_name = ''@a, @b'', channel_type = ''group''\<rparr>"
proof -
  have none: "\<forall>pre ts d z. \<not> encoded_at ''lunch'' pre ts d z"
  proof (intro allI notI)
    fix pre ts d z
    assume "encoded_at ''lunch'' pre ts d z"
    from encoded_at_matches [OF this] show False by (simp add: match_here_def)
  qed
  have first: "\<forall>pre' ts' d' z'. encoded_at ''xxmpdm-a--b-1yy'' pre' ts' d' z' \<longrightarrow>
                 length ''xx'' \<le> length pre'"
  proof (intro allI impI)
    fix pre' ts' d' z'
    assume e: "encoded_at ''xxmpdm-a--b-1yy'' pre' ts' d' z'"
    show "length ''xx'' \<le> length pre'"
    proof (cases pre')
      case Nil
      with e show ?thesis by (simp add: encoded_at_def)
    next
      case (Cons c q)
      with e show ?thesis by (cases q) (simp_all add: encoded_at_def)
    qed
  qed
  show ?thesis
    using
      group_name_derivation [of
        "JObj [(''id'', JStr ''G1''), (''is_mpim'', JBool True), (''name'', JStr ''mpdm-a--b-1'')]"
        "''mpdm-a--b-1''" "[]" "[''a'', ''b'']" "CHR ''1''" "[]"]
      group_name_derivation [of
        "JObj [(''id'', JStr ''G2''), (''is_mpim'', JBool True), (''name'', JStr ''lunch'')]"
        "''lunch''" "[]" "[''a'']" "CHR ''1''" "[]"]
      group_name_derivation [of
        "JObj [(''id'', JStr ''G3''), (''is_mpim'', JBool False), (''name'', JStr ''dev'')]"
        "''dev''" "[]" "[''a'']" "CHR ''1''" "[]"]
      group_name_derivation [of
        "JObj [(''id'', JStr ''G4''), (''is_mpim'', JBool True),
               (''name'', JStr ''mpdm-bob--agent-007--carl-1'')]"
        "''mpdm-bob--agent-007--carl-1''" "[]" "[''bob'', ''agent'']" "CHR ''0''"
        "''07--carl-1''"]
      group_name_derivation [of
        "JObj [(''id'', JStr ''G5''), (''is_mpim'', JBool True),
               (''name'', JStr ''xxmpdm-a--b-1yy'')]"
        "''xxmpdm-a--b-1yy''" "''xx''" "[''a'', ''b'']" "CHR ''1''" "''yy''"]
      none first
    by (simp add: encoded_at_def dash_tokens_def)
qed

text \<open>
  C9: on the response
  \<^verbatim>\<open>{ok: true, members: [{id: "U1", name: "alice", profile: {image_72: "url"}}]}\<close>
  the user listing yields exactly the mapping with the one key \<^verbatim>\<open>U1\<close>, whose record has
  the id \<^verbatim>\<open>U1\<close>, the name \<^verbatim>\<open>alice\<close> and the image \<^verbatim>\<open>url\<close> (and no bot flag).
\<close>

theorem getAllUsers_crafted_response:
  "getAllUsers
     (\<lambda>method options.
        if method = ''users.list'' \<and> options = []
        then Inr (JObj [(''ok'', JBool True),
                        (''members'',
                         JArr [JObj [(''id'', JStr ''U1''), (''name'', JStr ''alice''),
                                     (''profile'', JObj [(''image_72'', JStr ''url'')])]])])
        else Inl Rejected)
   = Inr (Some [''U1'' \<mapsto>
           \<lparr>user_id = JStr ''U1'', user_name = JStr ''alice'', imageUrl = JStr ''url'',
            isBot = None\<rparr>])"
  by (simp add: getAllUsers_def and_then_def get_prop_def)

text \<open>
  C8: for a raw message entry that lacks \<^verbatim>\<open>files\<close>, \<^verbatim>\<open>attachments\<close> and \<^verbatim>\<open>reactions\<close>,
  \<^verbatim>\<open>getMessage\<close> returns, under the entry's timestamp, a record whose attachment is
  null, whose eight rich-content fields are the empty string and whose reaction list is
  empty.
\<close>

theorem getMessage_lacking_optionals:
  assumes "\<not> nullish raw"
    and "field raw ''files'' = JUndefined"
    and "field raw ''attachments'' = JUndefined"
    and "field raw ''reactions'' = JUndefined"
  shows "getMessage raw =
     Inr [js_to_string (field raw ''ts'') \<mapsto>
       \<lparr>userId = (if truthy (field raw ''user'') then field raw ''user''
                  else field raw ''bot_id''),
        timestamp = field raw ''ts'',
        isEdited = truthy (field raw ''edited''),
        message_text = field raw ''text'',
        attachment = None,
        reactions = [],
        content =
          \<lparr>author = JStr [], authorIcon = JStr [], pretext = JStr [], title = JStr [],
           titleLink = JStr [], content_text = JStr [], footer = JStr [],
           borderColor = JStr []\<rparr>\<rparr>]"
  using assms by (simp add: getMessage_def content_field_def and_then_def Let_def)

theorem getMessage_lacking_optionals_witness:
  "getMessage (JObj [(''ts'', JStr ''1.5''), (''user'', JStr ''U1''), (''text'', JStr ''hi'')]) =
     Inr [''1.5'' \<mapsto>
       \<lparr>userId = JStr ''U1'', timestamp = JStr ''1.5'', isEdited = False,
        message_text = JStr ''hi'', attachment = None, reactions = [],
        content =
          \<lparr>author = JStr [], authorIcon = JStr [], pretext = JStr [], title = JStr [],
           titleLink = JStr [], content_text = JStr [], footer = JStr [],
           borderColor = JStr []\<rparr>\<rparr>]"
  using getMessage_lacking_optionals
    [of "JObj [(''ts'', JStr ''1.5''), (''user'', JStr ''U1''), (''text'', JStr ''hi'')]"]
  by simp

text \<open>
  C3, as stated, fails twice. An entry that has neither \<^verbatim>\<open>user\<close> nor \<^verbatim>\<open>bot_id\<close> gets a
  record all the same, whose author is \<open>undefined\<close>, neither a user id nor a bot id. And
  not every entry gets a record: one whose \<^verbatim>\<open>files\<close> is an empty array makes the function
  throw on \<^verbatim>\<open>files[0].name\<close>.
\<close>

theorem getMessage_no_author_counterexample:
  "getMessage (JObj [(''ts'', JStr ''1''), (''text'', JStr ''hi'')]) =
     Inr [''1'' \<mapsto>
       \<lparr>userId = JUndefined, timestamp = JStr ''1'', isEdited = False,
        message_text = JStr ''hi'', attachment = None, reactions = [],
        content = empty_content\<rparr>] \<and>
   getMessage (JObj [(''ts'', JStr ''2''), (''user'', JStr ''U1''), (''files'', JArr [])]) =
     Inl TypeError"
  by (simp add: getMessage_def content_field_def first_field_def get_prop_def and_then_def
      Let_def empty_content_def)

text \<open>
  C3, amended: for a raw message entry, \<^verbatim>\<open>getMessage\<close> throws exactly when a field that is
  present is unusable: \<^verbatim>\<open>files\<close> or \<^verbatim>\<open>attachments\<close> is truthy and has no first element, or
  \<^verbatim>\<open>reactions\<close> is truthy and is not an array of entries. An absent field never makes it
  throw. Otherwise it produces one record under the timestamp key. The record has one
  author field, which is the entry's \<^verbatim>\<open>user\<close> when that is truthy and its \<^verbatim>\<open>bot_id\<close>
  otherwise: an id whenever the entry carries one of the two, and \<open>undefined\<close> when it
  carries neither. Each absent optional field has its default: no attachment for absent
  \<^verbatim>\<open>files\<close>, empty rich-content fields for absent \<^verbatim>\<open>attachments\<close>, no reactions for absent
  \<^verbatim>\<open>reactions\<close>, not edited for absent \<^verbatim>\<open>edited\<close>, an undefined text for absent \<^verbatim>\<open>text\<close>.
\<close>

theorem getMessage_author_and_defaults:
  assumes "\<not> nullish raw"
  shows "(getMessage raw = Inl TypeError \<longleftrightarrow>
            truthy (field raw ''files'') \<and> no_first (field raw ''files'') \<or>
            truthy (field raw ''reactions'') \<and> not_mappable (field raw ''reactions'') \<or>
            truthy (field raw ''attachments'') \<and> no_first (field raw ''attachments'')) \<and>
         (getMessage raw \<noteq> Inl TypeError \<longrightarrow>
            (\<exists>r. getMessage raw = Inr [js_to_string (field raw ''ts'') \<mapsto> r] \<and>
               userId r = (if truthy (field raw ''user'') then field raw ''user''
                           else field raw ''bot_id'') \<and>
               (truthy (field raw ''user'') \<or> truthy (field raw ''bot_id'') \<longrightarrow>
                  truthy (userId r)) \<and>
               (field raw ''user'' = JUndefined \<and> field raw ''bot_id'' = JUndefined \<longrightarrow>
                  userId r = JUndefined) \<and>
               (field raw ''files'' = JUndefined \<longrightarrow> attachment r = None) \<and>
               (field raw ''attachments'' = JUndefined \<longrightarrow> content r = empty_content) \<and>
               (field raw ''reactions'' = JUndefined \<longrightarrow> reactions r = []) \<and>
               (field raw ''edited'' = JUndefined \<longrightarrow> isEdited r = False) \<and>
               (field raw ''text'' = JUndefined \<longrightarrow> message_text r = JUndefined)))"
proof -
  let ?bad = "truthy (field raw ''files'') \<and> no_first (field raw ''files'') \<or>
            truthy (field raw ''reactions'') \<and> not_mappable (field raw ''reactions'') \<or>
            truthy (field raw ''attachments'') \<and> no_first (field raw ''attachments'')"
  note parts = getMessage_parts [OF assms]
  have throws: "getMessage raw = Inl TypeError" if bad: ?bad
  proof (cases "truthy (field raw ''files'') \<and> no_first (field raw ''files'')")
    case True
    then show ?thesis using parts by (simp add: file_part_bad and_then_def)
  next
    case f: False
    from file_part_good [OF f] obtain fa where fa: "file_part (field raw ''files'') = Inr fa"
      by blast
    show ?thesis
    proof (cases "truthy (field raw ''reactions'') \<and> not_mappable (field raw ''reactions'')")
      case True
      then show ?thesis using parts fa by (simp add: reactions_part_bad and_then_def)
    next
      case r: False
      from reactions_part_good [OF r] obtain rs where
        rs: "reactions_part (field raw ''reactions'') = Inr rs" by blast
      from bad f r have "truthy (field raw ''attachments'') \<and> no_first (field raw ''attachments'')"
        by blast
      then show ?thesis using parts fa rs by (simp add: content_part_bad and_then_def)
    qed
  qed
  have returns:
    "\<exists>r. getMessage raw = Inr [js_to_string (field raw ''ts'') \<mapsto> r] \<and>
               userId r = (if truthy (field raw ''user'') then field raw ''user''
                           else field raw ''bot_id'') \<and>
               (truthy (field raw ''user'') \<or> truthy (field raw ''bot_id'') \<longrightarrow>
                  truthy (userId r)) \<and>
               (field raw ''user'' = JUndefined \<and> field raw ''bot_id'' = JUndefined \<longrightarrow>
                  userId r = JUndefined) \<and>
               (field raw ''files'' = JUndefined \<longrightarrow> attachment r = None) \<and>
               (field raw ''attachments'' = JUndefined \<longrightarrow> content r = empty_content) \<and>
               (field raw ''reactions'' = JUndefined \<longrightarrow> reactions r = []) \<and>
               (field raw ''edited'' = JUndefined \<longrightarrow> isEdited r = False) \<and>
               (field raw ''text'' = JUndefined \<longrightarrow> message_text r = JUndefined)"
    if good: "\<not> ?bad"
  proof -
    from good have f: "\<not> (truthy (field raw ''files'') \<and> no_first (field raw ''files''))"
      and r: "\<not> (truthy (field raw ''reactions'') \<and> not_mappable (field raw ''reactions''))"
      and c: "\<not> (truthy (field raw ''attachments'') \<and> no_first (field raw ''attachments''))"
      by blast+
    from file_part_good [OF f] obtain fa where
      fa: "file_part (field raw ''files'') = Inr fa"
          "\<not> truthy (field raw ''files'') \<longrightarrow> fa = None" by blast
    from reactions_part_good [OF r] obtain rs where
      rs: "reactions_part (field raw ''reactions'') = Inr rs"
          "\<not> truthy (field raw ''reactions'') \<longrightarrow> rs = []" by blast
    from content_part_good [OF c] obtain co where
      co: "content_part (field raw ''attachments'') = Inr co"
          "\<not> truthy (field raw ''attachments'') \<longrightarrow> co = empty_content" by blast
    from parts fa(1) rs(1) co(1) have
      "getMessage raw =
         Inr [js_to_string (field raw ''ts'') \<mapsto>
           \<lparr>userId = (if truthy (field raw ''user'') then field raw ''user''
                      else field raw ''bot_id''),
            timestamp = field raw ''ts'',
            isEdited = truthy (field raw ''edited''),
            message_text = field raw ''text'',
            attachment = fa, reactions = rs, content = co\<rparr>]"
      by (simp add: and_then_def)
    with fa(2) rs(2) co(2) show ?thesis by auto
  qed
  show ?thesis
  proof (cases ?bad)
    case True
    from throws [OF True] True show ?thesis by blast
  next
    case False
    from returns [OF False] have "getMessage raw \<noteq> Inl TypeError" by auto
    with returns [OF False] False show ?thesis by blast
  qed
qed

theorem getMessage_author_and_defaults_witness:
  "(\<exists>r. getMessage (JObj [(''ts'', JStr ''1.5''), (''bot_id'', JStr ''B1''),
                           (''attachments'', JArr [JObj [(''title'', JStr ''t'')]])])
          = Inr [''1.5'' \<mapsto> r] \<and>
        userId r = JStr ''B1'' \<and> attachment r = None \<and> reactions r = [] \<and>
        isEdited r = False \<and> message_text r = JUndefined) \<and>
   getMessage (JObj [(''ts'', JStr ''2''), (''user'', JStr ''U1''), (''files'', JArr [])])
     = Inl TypeError"
proof -
  let ?x = "JObj [(''ts'', JStr ''1.5''), (''bot_id'', JStr ''B1''),
                  (''attachments'', JArr [JObj [(''title'', JStr ''t'')]])]"
  let ?y = "JObj [(''ts'', JStr ''2''), (''user'', JStr ''U1''), (''files'', JArr [])]"
  have x: "\<not> nullish ?x" and y: "\<not> nullish ?y" by simp_all
  from getMessage_author_and_defaults [OF x, THEN conjunct1]
  have "getMessage ?x \<noteq> Inl TypeError" by simp
  with getMessage_author_and_defaults [OF x, THEN conjunct2]
  have 1: "\<exists>r. getMessage ?x = Inr [''1.5'' \<mapsto> r] \<and>
        userId r = JStr ''B1'' \<and> attachment r = None \<and> reactions r = [] \<and>
        isEdited r = False \<and> message_text r = JUndefined"
    by simp blast
  from getMessage_author_and_defaults [OF y, THEN conjunct1]
  have 2: "getMessage ?y = Inl TypeError" by simp
  from 1 2 show ?thesis by blast
qed

text \<open>
  C6, as stated, fails on an entry whose \<^verbatim>\<open>user\<close> field is the empty string: the test
  \<^verbatim>\<open>user ? user : bot_id\<close> is one of truthiness, and the author is the \<^verbatim>\<open>bot_id\<close>.
\<close>

theorem getMessage_empty_user_counterexample:
  "field (JObj [(''ts'', JStr ''1''), (''user'', JStr []), (''bot_id'', JStr ''B1'')]) ''user''
     = JStr [] \<and>
   getMessage (JObj [(''ts'', JStr ''1''), (''user'', JStr []), (''bot_id'', JStr ''B1'')]) =
     Inr [''1'' \<mapsto>
       \<lparr>userId = JStr ''B1'', timestamp = JStr ''1'', isEdited = False,
        message_text = JUndefined, attachment = None, reactions = [],
        content = empty_content\<rparr>]"
  by (simp add: getMessage_def content_field_def and_then_def Let_def empty_content_def)

text \<open>
  C6, amended: for every raw message entry that \<^verbatim>\<open>getMessage\<close> normalizes, the record's
  author id is the entry's \<^verbatim>\<open>user\<close> field when that field is truthy (present, and not
  empty, null, zero or false), and the entry's \<^verbatim>\<open>bot_id\<close> field when \<^verbatim>\<open>user\<close> is absent or
  not truthy.
\<close>

theorem getMessage_author:
  assumes "getMessage raw = Inr m"
  shows "\<exists>r. m = [js_to_string (field raw ''ts'') \<mapsto> r] \<and>
           (truthy (field raw ''user'') \<longrightarrow> userId r = field raw ''user'') \<and>
           (\<not> truthy (field raw ''user'') \<longrightarrow> userId r = field raw ''bot_id'')"
  using getMessage_Inr [OF assms] by auto

theorem getMessage_author_witness:
  "getMessage (JObj [(''ts'', JStr ''1''), (''user'', JStr ''U1''), (''bot_id'', JStr ''B1'')]) =
     Inr [''1'' \<mapsto>
       \<lparr>userId = JStr ''U1'', timestamp = JStr ''1'', isEdited = False,
        message_text = JUndefined, attachment = None, reactions = [],
        content = empty_content\<rparr>] \<and>
   getMessage (JObj [(''ts'', JStr ''2''), (''bot_id'', JStr ''B1'')]) =
     Inr [''2'' \<mapsto>
       \<lparr>userId = JStr ''B1'', timestamp = JStr ''2'', isEdited = False,
        message_text = JUndefined, attachment = None, reactions = [],
        content = empty_content\<rparr>]"
proof -
  let ?a = "JObj [(''ts'', JStr ''1''), (''user'', JStr ''U1''), (''bot_id'', JStr ''B1'')]"
  let ?b = "JObj [(''ts'', JStr ''2''), (''bot_id'', JStr ''B1'')]"
  let ?ra = "\<lparr>userId = JStr ''U1'', timestamp = JStr ''1'', isEdited = False,
        message_text = JUndefined, attachment = None, reactions = [],
        content = empty_content\<rparr>"
  let ?rb = "\<lparr>userId = JStr ''B1'', timestamp = JStr ''2'', isEdited = False,
        message_text = JUndefined, attachment = None, reactions = [],
        content = empty_content\<rparr>"
  have a: "getMessage ?a = Inr [''1'' \<mapsto> ?ra]"
    by (simp add: getMessage_def content_field_def and_then_def Let_def empty_content_def)
  have b: "getMessage ?b = Inr [''2'' \<mapsto> ?rb]"
    by (simp add: getMessage_def content_field_def and_then_def Let_def empty_content_def)
  from getMessage_author [OF a] have "userId ?ra = JStr ''U1''"
    by (auto dest: map_upd_eqD1)
  moreover from getMessage_author [OF b] have "userId ?rb = JStr ''B1''"
    by (auto dest: map_upd_eqD1)
  ultimately show ?thesis using a b by simp
qed

text \<open>
  C1, at a failing input: when the public-channel listing answers \<^verbatim>\<open>{ok: false}\<close>, its
  callback returns nothing, and \<^verbatim>\<open>[].concat(...values)\<close> appends that \<open>undefined\<close> as an
  element of its own. The combined list of one successful segment of length one has
  length two.
\<close>

theorem getChannels_failed_segment:
  "getChannels
     (\<lambda>method options.
        if method = ''channels.list'' then Inr (JObj [(''ok'', JBool False)])
        else if method = ''groups.list''
        then Inr (JObj [(''ok'', JBool True),
                        (''groups'', JArr [JObj [(''id'', JStr ''G1''), (''name'', JStr ''dev'')]])])
        else Inr (JObj [(''ok'', JBool True), (''ims'', JArr [])]))
     Map.empty
   = Inr [None,
          Some \<lparr>channel_id = JStr ''G1'', channel_name = ''#dev'', channel_type = ''group''\<rparr>]"
  by (simp add: getChannels_def and_then_def segment_def group_to_channel_def Let_def)

text \<open>
  C4, at a failing input: on \<^verbatim>\<open>{ok: false}\<close> the user listing is fulfilled with
  \<open>undefined\<close>, not with an empty mapping, whereas the bot lookup and the conversation
  history, which return their accumulator after the test, yield the empty mapping.
\<close>

theorem getAllUsers_not_ok:
  "getAllUsers (\<lambda>method options. Inr (JObj [(''ok'', JBool False)])) = Inr None \<and>
   getBotInfo (\<lambda>method options. Inr (JObj [(''ok'', JBool False)])) ''B1'' = Inr Map.empty \<and>
   getConversationHistory (\<lambda>method options. Inr (JObj [(''ok'', JBool False)])) ''C1''
     = Inr Map.empty"
  by (simp add: getAllUsers_def getBotInfo_def getConversationHistory_def and_then_def)




text \<open>
  C5: \<^verbatim>\<open>getConversationHistory\<close> calls \<^verbatim>\<open>conversations.history\<close> for the channel with the
  limit 50, and its result rests on the answer to that call alone. When the answer's
  \<^verbatim>\<open>ok\<close> flag is not set the result is the empty mapping, not an error; when it is set
  the result is the mappings that \<^verbatim>\<open>getMessage\<close> makes of the returned entries, spread
  one after the other into one mapping.
\<close>

theorem getConversationHistory_behaviour:
  assumes "client ''conversations.history'' [(''channel'', JStr channel), (''limit'', JNum 50)]
             = Inr response"
    and "\<not> nullish response"
  shows "(\<not> truthy (field response ''ok'') \<longrightarrow>
            getConversationHistory client channel = Inr Map.empty) \<and>
         (truthy (field response ''ok'') \<and> field response ''messages'' = JArr ms \<and>
          map getMessage ms = map Inr gs \<longrightarrow>
            getConversationHistory client channel = Inr (foldl (++) Map.empty gs)) \<and>
         (\<forall>client'.
            client' ''conversations.history'' [(''channel'', JStr channel), (''limit'', JNum 50)]
              = Inr response \<longrightarrow>
            getConversationHistory client' channel = getConversationHistory client channel)"
  using assms
  by (auto simp: getConversationHistory_def HISTORY_LIMIT_def and_then_Inr_left Let_def
      forEach_spread)

theorem getConversationHistory_behaviour_witness:
  "getConversationHistory
     (\<lambda>method options.
        if method = ''conversations.history'' \<and>
           options = [(''channel'', JStr ''C1''), (''limit'', JNum 50)]
        then Inr (JObj [(''ok'', JBool True),
                        (''messages'',
                         JArr [JObj [(''ts'', JStr ''2''), (''user'', JStr ''U1'')],
                               JObj [(''ts'', JStr ''1''), (''bot_id'', JStr ''B1'')]])])
        else Inl Rejected)
     ''C1''
   = Inr [''2'' \<mapsto>
            \<lparr>userId = JStr ''U1'', timestamp = JStr ''2'', isEdited = False,
             message_text = JUndefined, attachment = None, reactions = [],
             content = empty_content\<rparr>,
          ''1'' \<mapsto>
            \<lparr>userId = JStr ''B1'', timestamp = JStr ''1'', isEdited = False,
             message_text = JUndefined, attachment = None, reactions = [],
             content = empty_content\<rparr>] \<and>
   getConversationHistory
     (\<lambda>method options.
        if method = ''conversations.history'' \<and>
           options = [(''channel'', JStr ''C1''), (''limit'', JNum 50)]
        then Inr (JObj [(''ok'', JBool False),
                        (''messages'', JArr [JObj [(''ts'', JStr ''2''), (''user'', JStr ''U1'')]])])
        else Inl Rejected)
     ''C1''
   = Inr Map.empty"
proof -
  let ?a = "JObj [(''ts'', JStr ''2''), (''user'', JStr ''U1'')]"
  let ?b = "JObj [(''ts'', JStr ''1''), (''bot_id'', JStr ''B1'')]"
  let ?ra = "\<lparr>userId = JStr ''U1'', timestamp = JStr ''2'', isEdited = False,
             message_text = JUndefined, attachment = None, reactions = [],
             content = empty_content\<rparr>"
  let ?rb = "\<lparr>userId = JStr ''B1'', timestamp = JStr ''1'', isEdited = False,
             message_text = JUndefined, attachment = None, reactions = [],
             content = empty_content\<rparr>"
  let ?good = "JObj [(''ok'', JBool True), (''messages'', JArr [?a, ?b])]"
  let ?bad = "JObj [(''ok'', JBool False), (''messages'', JArr [?a])]"
  let ?client = "\<lambda>response method options.
        if method = ''conversations.history'' \<and>
           options = [(''channel'', JStr ''C1''), (''limit'', JNum 50)]
        then Inr response else Inl Rejected"
  have a: "getMessage ?a = Inr [''2'' \<mapsto> ?ra]"
    by (simp add: getMessage_def content_field_def and_then_def Let_def empty_content_def)
  have b: "getMessage ?b = Inr [''1'' \<mapsto> ?rb]"
    by (simp add: getMessage_def content_field_def and_then_def Let_def empty_content_def)
  have ms: "map getMessage [?a, ?b] = map Inr [[''2'' \<mapsto> ?ra], [''1'' \<mapsto> ?rb]]"
    using a b by simp
  have 1: "getConversationHistory (?client ?good) ''C1'' =
             Inr (foldl (++) Map.empty [[''2'' \<mapsto> ?ra], [''1'' \<mapsto> ?rb]])"
    using getConversationHistory_behaviour
      [of "?client ?good" "''C1''" ?good "[?a, ?b]" "[[''2'' \<mapsto> ?ra], [''1'' \<mapsto> ?rb]]"] ms
    by simp
  have 2: "getConversationHistory (?client ?bad) ''C1'' = Inr Map.empty"
    using getConversationHistory_behaviour [of "?client ?bad" "''C1''" ?bad "[?a]" "[]"]
    by simp
  from 1 2 show ?thesis by simp
qed

text \<open>
  C10: in a successful conversation history, an entry that no later entry of the message
  list shares its timestamp key with is the one whose record the combined mapping holds
  under that key: among entries of one timestamp the last one wins.
\<close>

theorem getConversationHistory_last_wins:
  assumes "client ''conversations.history'' [(''channel'', JStr channel), (''limit'', JNum 50)]
             = Inr response"
    and "truthy (field response ''ok'')"
    and "field response ''messages'' = JArr ms"
    and "map getMessage ms = map Inr gs"
    and "i < length ms"
    and "\<forall>j. i < j \<and> j < length ms \<longrightarrow>
           js_to_string (field (ms ! j) ''ts'') \<noteq> js_to_string (field (ms ! i) ''ts'')"
  shows "\<exists>result r.
           getConversationHistory client channel = Inr result \<and>
           getMessage (ms ! i) = Inr [js_to_string (field (ms ! i) ''ts'') \<mapsto> r] \<and>
           result (js_to_string (field (ms ! i) ''ts'')) = Some r"
proof -
  let ?k = "js_to_string (field (ms ! i) ''ts'')"
  have len: "length ms = length gs" using assms(4) by (metis length_map)
  with assms(4,5) have gi: "getMessage (ms ! i) = Inr (gs ! i)" by (metis nth_map)
  from normalized_nth [OF assms(4,5)] obtain r where r: "gs ! i = [?k \<mapsto> r]" by blast
  have later: "\<forall>j. i < j \<and> j < length gs \<longrightarrow> (gs ! j) ?k = None"
  proof (intro allI impI)
    fix j
    assume j: "i < j \<and> j < length gs"
    with len have "j < length ms" by simp
    from normalized_nth [OF assms(4) this] obtain r' where
      "gs ! j = [js_to_string (field (ms ! j) ''ts'') \<mapsto> r']" by blast
    moreover from j len assms(6) have "js_to_string (field (ms ! j) ''ts'') \<noteq> ?k" by simp
    ultimately show "(gs ! j) ?k = None" by simp
  qed
  from assms(5) len have "i < length gs" by simp
  from foldl_spread_last [OF this _ later, of r Map.empty] r
  have "foldl (++) Map.empty gs ?k = Some r" by simp
  with getConversationHistory_ok [of client channel response ms gs, OF assms(1-4)] gi r
  show ?thesis by simp
qed

theorem getConversationHistory_last_wins_witness:
  "\<exists>result.
     getConversationHistory
       (\<lambda>method options.
          Inr (JObj [(''ok'', JBool True),
                     (''messages'',
                      JArr [JObj [(''ts'', JStr ''1''), (''text'', JStr ''first'')],
                            JObj [(''ts'', JStr ''1''), (''text'', JStr ''second'')]])]))
       ''C1'' = Inr result \<and>
     result ''1'' =
       Some \<lparr>userId = JUndefined, timestamp = JStr ''1'', isEdited = False,
             message_text = JStr ''second'', attachment = None, reactions = [],
             content = empty_content\<rparr>"
proof -
  let ?a = "JObj [(''ts'', JStr ''1''), (''text'', JStr ''first'')]"
  let ?b = "JObj [(''ts'', JStr ''1''), (''text'', JStr ''second'')]"
  let ?ra = "\<lparr>userId = JUndefined, timestamp = JStr ''1'', isEdited = False,
             message_text = JStr ''first'', attachment = None, reactions = [],
             content = empty_content\<rparr>"
  let ?rb = "\<lparr>userId = JUndefined, timestamp = JStr ''1'', isEdited = False,
             message_text = JStr ''second'', attachment = None, reactions = [],
             content = empty_content\<rparr>"
  let ?good = "JObj [(''ok'', JBool True), (''messages'', JArr [?a, ?b])]"
  have a: "getMessage ?a = Inr [''1'' \<mapsto> ?ra]"
    by (simp add: getMessage_def content_field_def and_then_def Let_def empty_content_def)
  have b: "getMessage ?b = Inr [''1'' \<mapsto> ?rb]"
    by (simp add: getMessage_def content_field_def and_then_def Let_def empty_content_def)
  have ms: "map getMessage [?a, ?b] = map Inr [[''1'' \<mapsto> ?ra], [''1'' \<mapsto> ?rb]]"
    using a b by simp
  have "\<exists>result r.
           getConversationHistory (\<lambda>method options. Inr ?good) ''C1'' = Inr result \<and>
           getMessage ([?a, ?b] ! 1) = Inr [js_to_string (field ([?a, ?b] ! 1) ''ts'') \<mapsto> r] \<and>
           result (js_to_string (field ([?a, ?b] ! 1) ''ts'')) = Some r"
    by (rule getConversationHistory_last_wins [of "\<lambda>method options. Inr ?good" "''C1''" ?good
          "[?a, ?b]" "[[''1'' \<mapsto> ?ra], [''1'' \<mapsto> ?rb]]" 1]) (use ms in simp_all)
  then obtain result r where
    res: "getConversationHistory (\<lambda>method options. Inr ?good) ''C1'' = Inr result"
    and g: "getMessage ?b = Inr [''1'' \<mapsto> r]" and l: "result ''1'' = Some r"
    by auto
  from g b have "r = ?rb" by (auto dest: map_upd_eqD1)
  with res l show ?thesis by blast
qed

end
